theory Spec2Isabelle
  imports Complex_Main "HOL-Library.Word" "HOL-Library.Sublist"
begin

section \<open>Findora: the response handling and view state of \<open>ai_studio_code.ts\<close>\<close>

subsection \<open>JavaScript strings\<close>

text \<open>
  A JavaScript string is a sequence of UTF-16 code units; \<open>length\<close>, \<open>substring\<close>,
  \<open>trim\<close> and the regular expression of the source all work on code units.
\<close>

type_synonym jschar = "16 word"
type_synonym jsstring = "jschar list"

text \<open>An ASCII literal as a JavaScript string.\<close>

definition js :: "string \<Rightarrow> jsstring" where
  "js s = map (\<lambda>c. word_of_nat (of_char c)) s"

text \<open>
  \<open>String.prototype.trim\<close> removes WhiteSpace and LineTerminator code units from both
  ends: TAB, LF, VT, FF, CR, SP, NBSP, the Unicode space separators and U+FEFF.
\<close>

definition is_js_whitespace :: "jschar \<Rightarrow> bool" where
  "is_js_whitespace c \<longleftrightarrow>
     c \<in> set [0x09, 0x0A, 0x0B, 0x0C, 0x0D, 0x20, 0xA0, 0x1680,
              0x2000, 0x2001, 0x2002, 0x2003, 0x2004, 0x2005, 0x2006, 0x2007,
              0x2008, 0x2009, 0x200A, 0x2028, 0x2029, 0x202F, 0x205F, 0x3000, 0xFEFF]"

definition trim :: "jsstring \<Rightarrow> jsstring" where
  "trim s = rev (dropWhile is_js_whitespace (rev (dropWhile is_js_whitespace s)))"

subsection \<open>The fenced block: \<open>jsonText.match(/```json\n([\s\S]*?)\n```/)\<close>\<close>

text \<open>The two literals of the pattern: three backticks, \<open>json\<close>, LF; and LF, three backticks.\<close>

definition fence_open :: jsstring where
  "fence_open = [0x60, 0x60, 0x60, 0x6A, 0x73, 0x6F, 0x6E, 0x0A]"

definition fence_close :: jsstring where
  "fence_close = [0x0A, 0x60, 0x60, 0x60]"

text \<open>
  The lazy group \<open>([\s\S]*?)\<close> followed by the closing literal: the matcher tries the
  capture gathered so far first and takes one more code unit (any code unit) only when
  the closing literal does not follow.
\<close>

fun match_lazy :: "jsstring \<Rightarrow> jsstring \<Rightarrow> jsstring option" where
  "match_lazy cap [] = (if prefix fence_close [] then Some cap else None)"
| "match_lazy cap (c # cs) =
     (if prefix fence_close (c # cs) then Some cap else match_lazy (cap @ [c]) cs)"

text \<open>The pattern tried at the start of \<open>s\<close>; the result is capture group 1.\<close>

definition match_here :: "jsstring \<Rightarrow> jsstring option" where
  "match_here s =
     (if prefix fence_open s then match_lazy [] (drop (length fence_open) s) else None)"

text \<open>
  \<open>String.prototype.match\<close> without the \<open>g\<close> flag: the start positions are tried from
  left to right and the first position where the pattern matches decides; \<open>None\<close> is
  the \<open>null\<close> of no match.
\<close>

fun regex_match :: "jsstring \<Rightarrow> jsstring option" where
  "regex_match [] = match_here []"
| "regex_match (c # cs) =
     (case match_here (c # cs) of Some cap \<Rightarrow> Some cap | None \<Rightarrow> regex_match cs)"

text \<open>
  Lines 69 to 73: \<open>match && match[1]\<close> is falsy when there is no match and also when
  the captured text is the empty string.
\<close>

definition extract_payload :: "jsstring \<Rightarrow> jsstring" where
  "extract_payload text =
     (let jsonText = trim text in
      case regex_match jsonText of
        None \<Rightarrow> jsonText
      | Some cap \<Rightarrow> if cap \<noteq> [] then cap else jsonText)"

subsection \<open>Grounding chunks and citation sources\<close>

text \<open>
  \<open>interface Source { uri: string; title: string }\<close>. In a grounding chunk of the
  model's response the \<open>web\<close> member and its \<open>uri\<close> and \<open>title\<close> are all optional;
  \<open>None\<close> is \<open>undefined\<close>.
\<close>

record source =
  uri :: jsstring
  title :: jsstring

record web_chunk =
  web_uri :: "jsstring option"
  web_title :: "jsstring option"

record chunk =
  web :: "web_chunk option"

text \<open>
  Line 62: \<open>chunk.web && chunk.web.uri ? { uri: chunk.web.uri, title: chunk.web.title ||
  chunk.web.uri } : null\<close>. An empty string is falsy, like \<open>undefined\<close>.
\<close>

definition source_of_chunk :: "chunk \<Rightarrow> source option" where
  "source_of_chunk c =
     (case web c of
        None \<Rightarrow> None
      | Some w \<Rightarrow>
          (case web_uri w of
             None \<Rightarrow> None
           | Some u \<Rightarrow>
               if u \<noteq> [] then
                 Some \<lparr>uri = u,
                       title = (case web_title w of
                                  None \<Rightarrow> u
                                | Some t \<Rightarrow> if t \<noteq> [] then t else u)\<rparr>
               else None))"

text \<open>Lines 61 to 63: the \<open>map\<close> and the \<open>filter\<close> that drops the \<open>null\<close>s.\<close>

definition webSources :: "chunk list \<Rightarrow> source list" where
  "webSources chunks = map the (filter (\<lambda>s. s \<noteq> None) (map source_of_chunk chunks))"

text \<open>
  A JavaScript \<open>Map\<close> keeps its entries in insertion order: \<open>set\<close> on a key already
  present replaces the value where the entry stands, and a new key is appended.
  \<open>new Map(entries)\<close> sets the entries one after the other, and \<open>values()\<close> lists the
  values in entry order.
\<close>

fun Map_set :: "('k \<times> 'v) list \<Rightarrow> 'k \<Rightarrow> 'v \<Rightarrow> ('k \<times> 'v) list" where
  "Map_set [] k v = [(k, v)]"
| "Map_set ((k', v') # m) k v =
     (if k' = k then (k, v) # m else (k', v') # Map_set m k v)"

definition new_Map :: "('k \<times> 'v) list \<Rightarrow> ('k \<times> 'v) list" where
  "new_Map entries = fold (\<lambda>(k, v) m. Map_set m k v) entries []"

definition Map_values :: "('k \<times> 'v) list \<Rightarrow> 'v list" where
  "Map_values m = map snd m"

text \<open>Line 65.\<close>

definition uniqueSources :: "chunk list \<Rightarrow> source list" where
  "uniqueSources chunks =
     Map_values (new_Map (map (\<lambda>item. (uri item, item)) (webSources chunks)))"

text \<open>
  The order in which the distinct elements of a list first occur: an element is kept
  where it stands first, and its later occurrences are removed.
\<close>

fun first_occurrences :: "'a list \<Rightarrow> 'a list" where
  "first_occurrences [] = []"
| "first_occurrences (x # xs) = x # first_occurrences (filter (\<lambda>y. y \<noteq> x) xs)"

text \<open>Line 210: the label of a source link.\<close>

definition source_label :: "jsstring \<Rightarrow> jsstring" where
  "source_label t = (if length t > 50 then take 47 t @ js ''...'' else t)"

text \<open>Lines 207 to 213: the labels of the rendered source links, in order.\<close>

definition link_labels :: "source list \<Rightarrow> jsstring list" where
  "link_labels srcs = map (\<lambda>src. source_label (title src)) srcs"

subsection \<open>Values returned by \<open>JSON.parse\<close>\<close>

text \<open>
  \<open>JSON.parse\<close> returns an untyped JavaScript value. A number is a double; the
  doubles \<open>JSON.parse\<close> can return are the finite ones (rationals), negative zero, and
  the two infinities (from a literal that overflows). An object carries its own
  properties, each key once.
\<close>

datatype jsnumber = Finite rat | NegZero | PosInfinity | NegInfinity

datatype json =
    JNull
  | JBool bool
  | JNumber jsnumber
  | JString jsstring
  | JArray "json list"
  | JObject "(jsstring \<times> json) list"

datatype exn = TypeError

text \<open>ToBoolean; \<open>None\<close> is \<open>undefined\<close>.\<close>

fun truthy :: "json option \<Rightarrow> bool" where
  "truthy None = False"
| "truthy (Some JNull) = False"
| "truthy (Some (JBool b)) = b"
| "truthy (Some (JNumber n)) = (n \<noteq> Finite 0 \<and> n \<noteq> NegZero)"
| "truthy (Some (JString s)) = (s \<noteq> [])"
| "truthy (Some (JArray xs)) = True"
| "truthy (Some (JObject kvs)) = True"

text \<open>
  \<open>jsonResponse.products\<close>: reading a property of \<open>null\<close> throws a TypeError; an object
  gives its own property or \<open>undefined\<close>; no other value has a property of this name.
\<close>

fun member_products :: "json \<Rightarrow> exn + json option" where
  "member_products JNull = Inl TypeError"
| "member_products (JObject kvs) = Inr (map_of kvs (js ''products''))"
| "member_products v = Inr None"

text \<open>
  \<open>products.length === 0\<close> on whatever value is stored: an array and a string have a
  length, an object may have a property of that name, \<open>null\<close> throws.
\<close>

fun length_is_zero :: "json \<Rightarrow> exn + bool" where
  "length_is_zero JNull = Inl TypeError"
| "length_is_zero (JArray xs) = Inr (xs = [])"
| "length_is_zero (JString s) = Inr (s = [])"
| "length_is_zero (JObject kvs) =
     Inr (case map_of kvs (js ''length'') of
            Some (JNumber n) \<Rightarrow> n = Finite 0 \<or> n = NegZero
          | _ \<Rightarrow> False)"
| "length_is_zero v = Inr False"

text \<open>
  \<open>interface Product\<close>: what the type declares of a stored product, as a check on a
  run-time value.
\<close>

definition is_string_field :: "(jsstring \<times> json) list \<Rightarrow> string \<Rightarrow> bool" where
  "is_string_field kvs name =
     (case map_of kvs (js name) of Some (JString s) \<Rightarrow> True | _ \<Rightarrow> False)"

fun is_Product :: "json \<Rightarrow> bool" where
  "is_Product (JObject kvs) =
     (is_string_field kvs ''name'' \<and> is_string_field kvs ''description'' \<and>
      is_string_field kvs ''price'' \<and> is_string_field kvs ''imageUrl'' \<and>
      is_string_field kvs ''productUrl'')"
| "is_Product v = False"

fun is_Product_array :: "json \<Rightarrow> bool" where
  "is_Product_array (JArray xs) = list_all is_Product xs"
| "is_Product_array v = False"

subsection \<open>The component state\<close>

text \<open>
  The seven \<open>useState\<close> cells of \<open>App\<close>. \<open>products\<close> is declared \<open>Product[]\<close>, but the
  value stored in it comes unchecked from \<open>JSON.parse\<close>, so the model keeps it as a
  run-time value.
\<close>

record app_state =
  query :: jsstring
  products :: json
  sources :: "source list"
  isLoading :: bool
  isListening :: bool
  error :: "jsstring option"
  searched :: bool

definition initial_state :: app_state where
  "initial_state =
     \<lparr>query = [], products = JArray [], sources = [], isLoading = False,
      isListening = False, error = None, searched = False\<rparr>"

text \<open>
  The four messages of \<open>setError\<close>; the Turkish letters are written as code units
  (U+0131 dotless i, U+015F s cedilla, U+00F6 o umlaut, U+00FC and U+00DC u umlaut).
\<close>

definition parse_error_message :: jsstring where
  "parse_error_message =
     js ''Yan'' @ [0x131] @ js ''tta bir hata olu'' @ [0x15F] @
     js ''tu. Model beklenen formatta veri g'' @ [0xF6] @ js ''ndermedi.''"

definition request_error_message :: jsstring where
  "request_error_message =
     [0xDC] @ js ''r'' @ [0xFC] @ js ''nler al'' @ [0x131] @ js ''n'' @ [0x131] @
     js ''rken bir hata olu'' @ [0x15F] @ js ''tu. L'' @ [0xFC] @
     js ''tfen tekrar deneyin.''"

definition no_recognition_message :: jsstring where
  "no_recognition_message =
     js ''Taray'' @ [0x131] @ js ''c'' @ [0x131] @ js ''n'' @ [0x131] @
     js ''z ses tan'' @ [0x131] @ js ''may'' @ [0x131] @ js '' desteklemiyor.''"

definition recognition_error_message :: "jsstring \<Rightarrow> jsstring" where
  "recognition_error_message e =
     js ''Ses tan'' @ [0x131] @ js ''ma hatas'' @ [0x131] @ js '': '' @ e"

subsection \<open>\<open>fetchProducts\<close>\<close>

text \<open>
  The response of \<open>generateContent\<close>, as far as the code reads it:
  \<open>candidates?.[0]?.groundingMetadata?.groundingChunks\<close> and \<open>text\<close>, each possibly
  \<open>undefined\<close>. The promise either resolves with a response or rejects.
\<close>

record response =
  groundingChunks :: "chunk list option"
  response_text :: "jsstring option"

datatype api_outcome = Rejected | Resolved response

text \<open>The request sent to the model: the fixed prompt around the search query.\<close>

datatype request = GenerateContent jsstring

text \<open>
  Lines 40 to 57, up to the \<open>await\<close>: the new state and the request that was sent, if
  one was.
\<close>

definition fetchProducts_begin :: "jsstring \<Rightarrow> app_state \<Rightarrow> app_state \<times> request option" where
  "fetchProducts_begin searchQuery s =
     (if trim searchQuery = [] then (s, None)
      else (s\<lparr>isLoading := True, error := None, products := JArray [], sources := [],
              searched := True\<rparr>,
            Some (GenerateContent searchQuery)))"

text \<open>
  Lines 75 to 82, the inner \<open>try\<close>: \<open>JSON.parse\<close> is the run-time's, taken as a
  parameter whose \<open>None\<close> is the SyntaxError it throws. A TypeError from reading
  \<open>products\<close> of \<open>null\<close> is caught by the same \<open>catch\<close>.
\<close>

definition store_products :: "(jsstring \<Rightarrow> json option) \<Rightarrow> jsstring \<Rightarrow> app_state \<Rightarrow> app_state" where
  "store_products JSON_parse jsonText s =
     (case JSON_parse jsonText of
        None \<Rightarrow> s\<lparr>error := Some parse_error_message, products := JArray []\<rparr>
      | Some jsonResponse \<Rightarrow>
          (case member_products jsonResponse of
             Inl TypeError \<Rightarrow> s\<lparr>error := Some parse_error_message, products := JArray []\<rparr>
           | Inr p \<Rightarrow> s\<lparr>products := (if truthy p then the p else JArray [])\<rparr>))"

text \<open>
  Lines 59 to 89, after the \<open>await\<close>. A rejected promise, and the TypeError of
  \<open>response.text.trim()\<close> on an \<open>undefined\<close> text, reach the outer \<open>catch\<close>; the
  sources are stored before that. \<open>finally\<close> clears the loading flag.
\<close>

definition fetchProducts_resume ::
    "(jsstring \<Rightarrow> json option) \<Rightarrow> api_outcome \<Rightarrow> app_state \<Rightarrow> app_state" where
  "fetchProducts_resume JSON_parse outcome s =
     (case outcome of
        Rejected \<Rightarrow> s\<lparr>error := Some request_error_message\<rparr>
      | Resolved r \<Rightarrow>
          (let s1 = (case groundingChunks r of
                       None \<Rightarrow> s
                     | Some chunks \<Rightarrow> s\<lparr>sources := uniqueSources chunks\<rparr>)
           in case response_text r of
                None \<Rightarrow> s1\<lparr>error := Some request_error_message\<rparr>
              | Some t \<Rightarrow> store_products JSON_parse (extract_payload t) s1))
     \<lparr>isLoading := False\<rparr>"

text \<open>A whole call with nothing else happening during the \<open>await\<close>.\<close>

definition fetchProducts ::
    "(jsstring \<Rightarrow> json option) \<Rightarrow> jsstring \<Rightarrow> api_outcome \<Rightarrow> app_state \<Rightarrow> app_state" where
  "fetchProducts JSON_parse searchQuery outcome s =
     (case fetchProducts_begin searchQuery s of
        (s', None) \<Rightarrow> s'
      | (s', Some req) \<Rightarrow> fetchProducts_resume JSON_parse outcome s')"

subsection \<open>The handlers\<close>

text \<open>Lines 92 to 95.\<close>

definition handleTextSearch :: "app_state \<Rightarrow> app_state \<times> request option" where
  "handleTextSearch s = fetchProducts_begin (query s) s"

text \<open>
  Lines 97 to 110 and 128: the new state, and whether \<open>recognition.start()\<close> was
  reached. \<open>supported\<close> says whether the browser has a \<open>SpeechRecognition\<close> constructor.
\<close>

definition handleVoiceSearch :: "bool \<Rightarrow> app_state \<Rightarrow> app_state \<times> bool" where
  "handleVoiceSearch supported s =
     (if \<not> supported then (s\<lparr>error := Some no_recognition_message\<rparr>, False)
      else if isListening s \<or> isLoading s then (s, False)
      else (s\<lparr>isListening := True, error := None\<rparr>, True))"

text \<open>Lines 112 to 126: the three callbacks of a recognition session.\<close>

definition onresult :: "jsstring \<Rightarrow> app_state \<Rightarrow> app_state \<times> request option" where
  "onresult speechResult s = fetchProducts_begin speechResult (s\<lparr>query := speechResult\<rparr>)"

definition onspeechend :: "app_state \<Rightarrow> app_state" where
  "onspeechend s = s\<lparr>isListening := False\<rparr>"

definition onerror :: "jsstring \<Rightarrow> app_state \<Rightarrow> app_state" where
  "onerror e s = s\<lparr>error := Some (recognition_error_message e), isListening := False\<rparr>"

text \<open>Lines 181, 183 and 191: the \<open>disabled\<close> attributes of the input and the two buttons.\<close>

definition input_disabled :: "app_state \<Rightarrow> bool" where
  "input_disabled s \<longleftrightarrow> isLoading s \<or> isListening s"

definition search_button_disabled :: "app_state \<Rightarrow> bool" where
  "search_button_disabled s \<longleftrightarrow> isLoading s \<or> isListening s \<or> trim (query s) = []"

definition voice_button_disabled :: "app_state \<Rightarrow> bool" where
  "voice_button_disabled s \<longleftrightarrow> isLoading s"

subsection \<open>\<open>renderStatus\<close>\<close>

text \<open>
  What the status area shows: the loader, one of three fixed paragraphs, the error
  paragraph with its message, or nothing (\<open>null\<close>).
\<close>

datatype status_view =
    Loader
  | Listening_paragraph
  | Error_paragraph jsstring
  | Empty_result_paragraph
  | Prompt_paragraph
  | Nothing

text \<open>Lines 141 to 147; \<open>products.length\<close> is read only when the two flags before it allow.\<close>

definition renderStatus_rest :: "app_state \<Rightarrow> exn + status_view" where
  "renderStatus_rest s =
     (case (if searched s \<and> \<not> isLoading s then length_is_zero (products s) else Inr False) of
        Inl e \<Rightarrow> Inl e
      | Inr True \<Rightarrow> Inr Empty_result_paragraph
      | Inr False \<Rightarrow> if \<not> searched s then Inr Prompt_paragraph else Inr Nothing)"

text \<open>Lines 131 to 148; \<open>if (error)\<close> is false for \<open>null\<close> and for the empty string.\<close>

definition renderStatus :: "app_state \<Rightarrow> exn + status_view" where
  "renderStatus s =
     (if isLoading s then Inr Loader
      else if isListening s then Inr Listening_paragraph
      else case error s of
             None \<Rightarrow> renderStatus_rest s
           | Some e \<Rightarrow> if e \<noteq> [] then Inr (Error_paragraph e) else renderStatus_rest s)"

subsection \<open>The results grid\<close>








subsection \<open>The page and its events\<close>

text \<open>
  The component state together with what is outstanding outside it: the number of
  \<open>generateContent\<close> calls whose promise has not settled, and the number of recognition
  sessions that were started and have delivered neither a result nor an error.
\<close>

record world =
  ui :: app_state
  in_flight :: nat
  recognizing :: nat

definition initial_world :: world where
  "initial_world = \<lparr>ui = initial_state, in_flight = 0, recognizing = 0\<rparr>"

text \<open>
  What can happen to the page: the user types into the input, submits the form or
  clicks the voice button; a recognition session reports the end of speech, a result or
  an error; a pending model call settles.
\<close>

datatype event =
    Type jsstring
  | Submit
  | VoiceClick
  | SpeechEnd
  | Result jsstring
  | RecognitionError jsstring
  | Settle api_outcome

definition sent :: "request option \<Rightarrow> nat" where
  "sent r = (case r of None \<Rightarrow> 0 | Some req \<Rightarrow> 1)"

text \<open>
  One event; \<open>None\<close> when the event cannot happen in this state: a disabled control
  takes no input (the form is submitted through its submit button, so not while that
  button is disabled), a recognition callback needs a session, a settlement needs a
  pending call. The browser fires \<open>speechend\<close> before the session's result: the handler
  of \<open>speechend\<close> calls \<open>recognition.stop()\<close>, after which the service returns what it
  has recognised.
\<close>

fun step :: "(jsstring \<Rightarrow> json option) \<Rightarrow> bool \<Rightarrow> event \<Rightarrow> world \<Rightarrow> world option" where
  "step JSON_parse supported (Type t) w =
     (if input_disabled (ui w) then None
      else Some (w\<lparr>ui := (ui w)\<lparr>query := t\<rparr>\<rparr>))"
| "step JSON_parse supported Submit w =
     (if search_button_disabled (ui w) then None
      else case handleTextSearch (ui w) of
             (s', r) \<Rightarrow> Some (w\<lparr>ui := s', in_flight := in_flight w + sent r\<rparr>))"
| "step JSON_parse supported VoiceClick w =
     (if voice_button_disabled (ui w) then None
      else case handleVoiceSearch supported (ui w) of
             (s', started) \<Rightarrow>
               Some (w\<lparr>ui := s',
                       recognizing := recognizing w + (if started then 1 else 0)\<rparr>))"
| "step JSON_parse supported SpeechEnd w =
     (if recognizing w = 0 then None
      else Some (w\<lparr>ui := onspeechend (ui w)\<rparr>))"
| "step JSON_parse supported (Result t) w =
     (if recognizing w = 0 then None
      else case onresult t (ui w) of
             (s', r) \<Rightarrow>
               Some (w\<lparr>ui := s', in_flight := in_flight w + sent r,
                       recognizing := recognizing w - 1\<rparr>))"
| "step JSON_parse supported (RecognitionError e) w =
     (if recognizing w = 0 then None
      else Some (w\<lparr>ui := onerror e (ui w), recognizing := recognizing w - 1\<rparr>))"
| "step JSON_parse supported (Settle outcome) w =
     (if in_flight w = 0 then None
      else Some (w\<lparr>ui := fetchProducts_resume JSON_parse outcome (ui w),
                   in_flight := in_flight w - 1\<rparr>))"

fun run :: "(jsstring \<Rightarrow> json option) \<Rightarrow> bool \<Rightarrow> event list \<Rightarrow> world \<Rightarrow> world option" where
  "run JSON_parse supported [] w = Some w"
| "run JSON_parse supported (e # es) w =
     (case step JSON_parse supported e w of
        None \<Rightarrow> None
      | Some w' \<Rightarrow> run JSON_parse supported es w')"

section \<open>Properties\<close>

subsection \<open>Blank queries and the start of a search\<close>

lemma dropWhile_all_iff:
  "(\<forall>x\<in>set (dropWhile P xs). P x) \<longleftrightarrow> (\<forall>x\<in>set xs. P x)"
  by (induction xs) auto

lemma trim_Nil_iff: "trim q = [] \<longleftrightarrow> (\<forall>c\<in>set q. is_js_whitespace c)"
  by (simp add: trim_def dropWhile_all_iff)

text \<open>
  C8. For a search query that is empty or made of white space only, \<open>fetchProducts\<close>
  returns at once: no request is sent and the state it returns is the state it was
  given, so products, sources, error, the loading flag and the searched flag (and the
  other two cells) keep their values, whatever the model would have answered.
\<close>

theorem blank_query_changes_nothing:
  assumes "\<forall>c\<in>set searchQuery. is_js_whitespace c"
  shows "fetchProducts_begin searchQuery s = (s, None) \<and>
         fetchProducts JSON_parse searchQuery outcome s = s"
  using assms by (simp add: fetchProducts_def fetchProducts_begin_def trim_Nil_iff)

theorem blank_query_changes_nothing_witness:
  "list_all is_js_whitespace (js '' '' @ [0x09, 0x0A]) \<and>
   fetchProducts_begin (js '' '' @ [0x09, 0x0A]) (initial_state\<lparr>searched := True\<rparr>)
     = (initial_state\<lparr>searched := True\<rparr>, None) \<and>
   fetchProducts (\<lambda>t. None) (js '' '' @ [0x09, 0x0A]) Rejected
       (initial_state\<lparr>searched := True\<rparr>)
     = initial_state\<lparr>searched := True\<rparr>"
proof -
  have h: "\<forall>c\<in>set (js '' '' @ [0x09, 0x0A]). is_js_whitespace c"
    by (simp add: js_def is_js_whitespace_def)
  from h blank_query_changes_nothing [OF h] show ?thesis
    unfolding list_all_iff by blast
qed

text \<open>
  C9. A call of \<open>fetchProducts\<close> with a query that is not blank sends the request, and
  in the state in which the request is sent the error is \<open>null\<close>, the products and the
  sources are empty and the searched flag is set (the loading flag too).
\<close>

theorem search_start_resets:
  assumes "\<exists>c\<in>set searchQuery. \<not> is_js_whitespace c"
  shows "\<exists>s'. fetchProducts_begin searchQuery s = (s', Some (GenerateContent searchQuery)) \<and>
           error s' = None \<and> products s' = JArray [] \<and> sources s' = [] \<and>
           searched s' \<and> isLoading s'"
  using assms by (auto simp add: fetchProducts_begin_def trim_Nil_iff)

theorem search_start_resets_witness:
  "(\<exists>c\<in>set (js ''tv''). \<not> is_js_whitespace c) \<and>
   (\<exists>s'. fetchProducts_begin (js ''tv'')
            (initial_state\<lparr>error := Some request_error_message,
                            products := JArray [JNull],
                            sources := [\<lparr>uri = js ''u'', title = js ''t''\<rparr>]\<rparr>)
          = (s', Some (GenerateContent (js ''tv''))) \<and>
         error s' = None \<and> products s' = JArray [] \<and> sources s' = [] \<and>
         searched s' \<and> isLoading s')"
proof -
  have h: "\<exists>c\<in>set (js ''tv''). \<not> is_js_whitespace c"
    by (simp add: js_def is_js_whitespace_def)
  from h search_start_resets [OF h] show ?thesis by blast
qed

subsection \<open>Source link labels\<close>

text \<open>
  C10. Every rendered label of a source link has at most 50 code units: a title longer
  than 50 is rendered as its first 47 code units followed by three dots, and a title of
  length 50 or less is rendered as it is.
\<close>

theorem source_label_length:
  "(\<forall>l\<in>set (link_labels srcs). length l \<le> 50) \<and>
   (length t > 50 \<longrightarrow> source_label t = take 47 t @ js ''...'') \<and>
   (length t \<le> 50 \<longrightarrow> source_label t = t)"
  by (auto simp add: link_labels_def source_label_def js_def)

theorem source_label_length_witness:
  "link_labels [\<lparr>uri = js ''u'', title = replicate 51 0x61\<rparr>, \<lparr>uri = js ''v'', title = js ''shop''\<rparr>]
     = [replicate 47 0x61 @ js ''...'', js ''shop''] \<and>
   list_all (\<lambda>l. length l \<le> 50)
     (link_labels [\<lparr>uri = js ''u'', title = replicate 51 0x61\<rparr>,
                   \<lparr>uri = js ''v'', title = js ''shop''\<rparr>]) \<and>
   length (replicate 51 (0x61 :: jschar)) > 50 \<and>
   source_label (replicate 51 0x61) = take 47 (replicate 51 0x61) @ js ''...'' \<and>
   length (js ''shop'') \<le> 50 \<and> source_label (js ''shop'') = js ''shop''"
  using source_label_length [of "[\<lparr>uri = js ''u'', title = replicate 51 0x61\<rparr>,
                                   \<lparr>uri = js ''v'', title = js ''shop''\<rparr>]" "replicate 51 0x61"]
        source_label_length [of "[]" "js ''shop''"]
  by (simp add: link_labels_def source_label_def js_def)

subsection \<open>The payload handed to \<open>JSON.parse\<close>\<close>

text \<open>
  The matcher against a declarative description: a match at the first opening literal,
  with the capture running to the first closing literal after it.
\<close>

lemma prefix_append_long:
  "prefix p (a @ b) \<Longrightarrow> length p \<le> length a \<Longrightarrow> prefix p a"
  by (metis prefix_length_prefix prefixI)

lemma prefix_close_early:
  assumes "prefix fence_close (x # c @ fence_close @ post)"
  shows "sublist fence_close ((x # c) @ butlast fence_close)"
proof -
  have ne: "fence_close \<noteq> []" by (simp add: fence_close_def)
  then have "x # c @ fence_close @ post = ((x # c) @ butlast fence_close) @ (last fence_close # post)"
    by simp
  moreover have "length fence_close \<le> length ((x # c) @ butlast fence_close)"
    using ne by (simp add: Suc_leI)
  ultimately have "prefix fence_close ((x # c) @ butlast fence_close)"
    using assms prefix_append_long by metis
  then show ?thesis by (rule prefix_imp_sublist)
qed

lemma match_lazy_unfold:
  "match_lazy cap s =
     (if prefix fence_close s then Some cap
      else case s of [] \<Rightarrow> None | c # cs \<Rightarrow> match_lazy (cap @ [c]) cs)"
  by (cases s) simp_all

lemma match_lazy_first:
  "\<not> sublist fence_close (c @ butlast fence_close) \<Longrightarrow>
   match_lazy cap (c @ fence_close @ post) = Some (cap @ c)"
proof (induction c arbitrary: cap)
  case Nil
  show ?case by (simp add: match_lazy_unfold)
next
  case (Cons x c)
  from Cons.prems have np: "\<not> prefix fence_close (x # c @ fence_close @ post)"
    using prefix_close_early by blast
  from Cons.prems have "\<not> sublist fence_close (c @ butlast fence_close)"
    by (auto simp: sublist_Cons_right)
  from Cons.IH [OF this, of "cap @ [x]"] np show ?case by simp
qed

lemma match_lazy_sound:
  "match_lazy cap s = Some r \<Longrightarrow>
   \<exists>c post. s = c @ fence_close @ post \<and> r = cap @ c \<and>
            \<not> sublist fence_close (c @ butlast fence_close)"
proof (induction s arbitrary: cap)
  case Nil
  then have "prefix fence_close []" "r = cap" by (auto split: if_splits)
  then show ?case  by (auto simp: fence_close_def)
next
  case (Cons x s)
  show ?case
  proof (cases "prefix fence_close (x # s)")
    case True
    then obtain post where "x # s = fence_close @ post" by (auto simp: prefix_def)
    moreover have "r = cap" using Cons.prems True by simp
    moreover have "\<not> sublist fence_close (butlast fence_close)"
      by (auto dest!: sublist_length_le simp: fence_close_def)
    ultimately show ?thesis by (intro exI [of _ "[]"] exI [of _ post]) simp
  next
    case False
    with Cons.prems have "match_lazy (cap @ [x]) s = Some r" by simp
    from Cons.IH [OF this] obtain c post where
      c: "s = c @ fence_close @ post" "r = (cap @ [x]) @ c"
         "\<not> sublist fence_close (c @ butlast fence_close)" by blast
    have "\<not> sublist fence_close ((x # c) @ butlast fence_close)"
    proof
      assume "sublist fence_close ((x # c) @ butlast fence_close)"
      then have "prefix fence_close ((x # c) @ butlast fence_close)"
        using c(3) by (auto simp: sublist_Cons_right)
      moreover have "x # s = ((x # c) @ butlast fence_close) @ (last fence_close # post)"
        using c(1) by (simp add: fence_close_def)
      ultimately have "prefix fence_close (x # s)"
        by (metis prefix_prefix)
      with False show False by simp
    qed
    with c show ?thesis by (intro exI [of _ "x # c"] exI [of _ post]) simp
  qed
qed

lemma match_lazy_complete:
  "sublist fence_close s \<Longrightarrow> match_lazy cap s \<noteq> None"
proof (induction s arbitrary: cap)
  case Nil
  then show ?case by (simp add: fence_close_def)
next
  case (Cons x s)
  then show ?case by (auto simp: sublist_Cons_right)
qed


lemma not_sublist_butlast: "xs \<noteq> [] \<Longrightarrow> \<not> sublist xs (butlast xs)"
  using sublist_length_le [of xs "butlast xs"] by (cases xs) auto

lemma regex_match_unfold:
  "regex_match s =
     (case match_here s of Some cap \<Rightarrow> Some cap
      | None \<Rightarrow> (case s of [] \<Rightarrow> None | c # cs \<Rightarrow> regex_match cs))"
  by (cases s) (simp_all add: match_here_def split: option.splits)

lemma match_here_open:
  "match_here (fence_open @ rest) = match_lazy [] rest"
  by (simp add: match_here_def)

lemma match_here_Some:
  "match_here s = Some c \<Longrightarrow>
   \<exists>post. s = fence_open @ c @ fence_close @ post \<and>
          \<not> sublist fence_close (c @ butlast fence_close)"
  by (auto simp: match_here_def prefix_def split: if_splits dest!: match_lazy_sound)

lemma regex_match_first:
  assumes "\<not> sublist fence_open (pre @ butlast fence_open)"
      and "\<not> sublist fence_close (c @ butlast fence_close)"
  shows "regex_match (pre @ fence_open @ c @ fence_close @ post) = Some c"
  using assms(1)
proof (induction pre)
  case Nil
  show ?case
    using match_lazy_first [OF assms(2), of "[]" post]
    by (simp add: regex_match_unfold [of "fence_open @ _"] match_here_open)
next
  case (Cons x pre)
  have ne: "fence_open \<noteq> []" by (simp add: fence_open_def)
  have "\<not> prefix fence_open (x # pre @ fence_open @ c @ fence_close @ post)"
  proof
    assume p: "prefix fence_open (x # pre @ fence_open @ c @ fence_close @ post)"
    have "x # pre @ fence_open @ c @ fence_close @ post
            = ((x # pre) @ butlast fence_open) @ (last fence_open # c @ fence_close @ post)"
      using ne by simp
    moreover have "length fence_open \<le> length ((x # pre) @ butlast fence_open)"
      using ne by (simp add: Suc_leI)
    ultimately have "prefix fence_open ((x # pre) @ butlast fence_open)"
      using p prefix_append_long by metis
    with Cons.prems show False by (auto dest: prefix_imp_sublist)
  qed
  then have "match_here (x # pre @ fence_open @ c @ fence_close @ post) = None"
    by (simp add: match_here_def)
  moreover from Cons.prems have "\<not> sublist fence_open (pre @ butlast fence_open)"
    by (auto simp: sublist_Cons_right)
  ultimately show ?case using Cons.IH by simp
qed

lemma regex_match_complete:
  "regex_match (pre @ fence_open @ c @ fence_close @ post) \<noteq> None"
proof (induction pre)
  case Nil
  have "sublist fence_close (c @ fence_close @ post)" by (auto simp: sublist_def)
  from match_lazy_complete [OF this, of "[]"] show ?case
    by (auto simp add: regex_match_unfold [of "fence_open @ _"] match_here_open)
next
  case (Cons x pre)
  then show ?case by (auto split: option.splits)
qed

lemma regex_match_sound:
  "regex_match s = Some c \<Longrightarrow>
   \<exists>pre post. s = pre @ fence_open @ c @ fence_close @ post \<and>
     \<not> sublist fence_open (pre @ butlast fence_open) \<and>
     \<not> sublist fence_close (c @ butlast fence_close)"
proof (induction s)
  case Nil
  then have "match_here [] = Some c" by simp
  from match_here_Some [OF this] show ?case by (simp add: fence_open_def)
next
  case (Cons x s)
  have ne: "fence_open \<noteq> []" by (simp add: fence_open_def)
  show ?case
  proof (cases "match_here (x # s)")
    case (Some cap)
    with Cons.prems have "match_here (x # s) = Some c" by simp
    from match_here_Some [OF this] obtain post where
      "x # s = [] @ fence_open @ c @ fence_close @ post"
      "\<not> sublist fence_close (c @ butlast fence_close)" by auto
    moreover have "\<not> sublist fence_open ([] @ butlast fence_open)"
      using not_sublist_butlast [OF ne] by simp
    ultimately show ?thesis by blast
  next
    case None
    with Cons.prems have "regex_match s = Some c" by simp
    from Cons.IH [OF this] obtain pre post where
      d: "s = pre @ fence_open @ c @ fence_close @ post"
         "\<not> sublist fence_open (pre @ butlast fence_open)"
         "\<not> sublist fence_close (c @ butlast fence_close)" by blast
    have "\<not> prefix fence_open (x # s)"
    proof
      assume "prefix fence_open (x # s)"
      then obtain rest where r: "x # s = fence_open @ rest" by (auto simp: prefix_def)
      with None have "match_lazy [] rest = None" by (simp add: match_here_open)
      then have "\<not> sublist fence_close rest" using match_lazy_complete by blast
      moreover have "sublist fence_close rest"
      proof -
        from r d(1) have "(x # pre @ fence_open) @ (c @ fence_close @ post) = fence_open @ rest"
          by simp
        then obtain us where
          "(x # pre @ fence_open = fence_open @ us \<and> us @ (c @ fence_close @ post) = rest) \<or>
           ((x # pre @ fence_open) @ us = fence_open \<and> c @ fence_close @ post = us @ rest)"
          unfolding append_eq_append_conv2 by blast
        then show ?thesis
        proof
          assume "x # pre @ fence_open = fence_open @ us \<and> us @ (c @ fence_close @ post) = rest"
          then have "rest = (us @ c) @ fence_close @ post" by simp
          then show ?thesis unfolding sublist_def by blast
        next
          assume a: "(x # pre @ fence_open) @ us = fence_open \<and> c @ fence_close @ post = us @ rest"
          then have "length ((x # pre @ fence_open) @ us) = length fence_open" by simp
          then show ?thesis by simp
        qed
      qed
      ultimately show False by simp
    qed
    have "\<not> sublist fence_open ((x # pre) @ butlast fence_open)"
    proof
      assume "sublist fence_open ((x # pre) @ butlast fence_open)"
      with d(2) have "prefix fence_open ((x # pre) @ butlast fence_open)"
        by (auto simp: sublist_Cons_right)
      moreover have "x # s = ((x # pre) @ butlast fence_open) @ (last fence_open # c @ fence_close @ post)"
        using d(1) ne by simp
      ultimately have "prefix fence_open (x # s)" by (metis prefix_prefix)
      with \<open>\<not> prefix fence_open (x # s)\<close> show False by simp
    qed
    with d show ?thesis by (intro exI [of _ "x # pre"] exI [of _ post]) simp
  qed
qed


text \<open>
  C1, as stated, fails on a block with nothing in it. The trimmed response
  \<open>```json\n\n```\<close> is the opening literal, an empty content and the closing literal,
  so the content of its first block is the empty string; the payload is not the empty
  string but the whole trimmed text, because \<open>match[1]\<close> is falsy.
\<close>

theorem extract_payload_empty_block:
  "trim [0x60, 0x60, 0x60, 0x6A, 0x73, 0x6F, 0x6E, 0x0A, 0x0A, 0x60, 0x60, 0x60]
     = fence_open @ [] @ fence_close \<and>
   extract_payload [0x60, 0x60, 0x60, 0x6A, 0x73, 0x6F, 0x6E, 0x0A, 0x0A, 0x60, 0x60, 0x60]
     \<noteq> []"
  by (simp add: extract_payload_def trim_def is_js_whitespace_def fence_open_def
        fence_close_def match_here_def)

text \<open>
  C1, amended. The payload is the content of the first fenced block of the trimmed text
  when that content is not empty, and the whole trimmed text otherwise (no block, or a
  first block with empty content). The first block starts at the first occurrence of
  the opening literal that is followed, somewhere, by the closing literal, and its
  content ends at the first occurrence of the closing literal after the opening one;
  a text that has a block has a first block.
\<close>

theorem extract_payload_first_block:
  "(\<not> (\<exists>pre c post. trim text = pre @ fence_open @ c @ fence_close @ post) \<longrightarrow>
      extract_payload text = trim text) \<and>
   (trim text = pre @ fence_open @ c @ fence_close @ post \<and>
    \<not> sublist fence_open (pre @ butlast fence_open) \<and>
    \<not> sublist fence_close (c @ butlast fence_close) \<longrightarrow>
      extract_payload text = (if c \<noteq> [] then c else trim text)) \<and>
   ((\<exists>pre c post. trim text = pre @ fence_open @ c @ fence_close @ post) \<longrightarrow>
      (\<exists>pre c post. trim text = pre @ fence_open @ c @ fence_close @ post \<and>
         \<not> sublist fence_open (pre @ butlast fence_open) \<and>
         \<not> sublist fence_close (c @ butlast fence_close)))"
proof (intro conjI impI)
  assume "\<not> (\<exists>pre c post. trim text = pre @ fence_open @ c @ fence_close @ post)"
  then have "regex_match (trim text) = None"
    using regex_match_sound [of "trim text"] by (cases "regex_match (trim text)") auto
  then show "extract_payload text = trim text"
    by (simp add: extract_payload_def)
next
  assume "trim text = pre @ fence_open @ c @ fence_close @ post \<and>
    \<not> sublist fence_open (pre @ butlast fence_open) \<and>
    \<not> sublist fence_close (c @ butlast fence_close)"
  then have "regex_match (trim text) = Some c"
    using regex_match_first [of pre c post] by simp
  then show "extract_payload text = (if c \<noteq> [] then c else trim text)"
    by (simp add: extract_payload_def)
next
  assume "\<exists>pre c post. trim text = pre @ fence_open @ c @ fence_close @ post"
  then obtain pre c post where "trim text = pre @ fence_open @ c @ fence_close @ post"
    by blast
  with regex_match_complete [of pre c post] have "regex_match (trim text) \<noteq> None"
    by simp
  then obtain r where "regex_match (trim text) = Some r" by blast
  from regex_match_sound [OF this]
  show "\<exists>pre c post. trim text = pre @ fence_open @ c @ fence_close @ post \<and>
         \<not> sublist fence_open (pre @ butlast fence_open) \<and>
         \<not> sublist fence_close (c @ butlast fence_close)"
    by blast
qed

theorem extract_payload_first_block_witness:
  "trim (js ''  hi'' @ fence_open @ js ''{}'' @ fence_close @ js ''x  '')
     = js ''hi'' @ fence_open @ js ''{}'' @ fence_close @ js ''x'' \<and>
   \<not> sublist fence_open (js ''hi'' @ butlast fence_open) \<and>
   \<not> sublist fence_close (js ''{}'' @ butlast fence_close) \<and>
   extract_payload (js ''  hi'' @ fence_open @ js ''{}'' @ fence_close @ js ''x  '') = js ''{}'' \<and>
   regex_match (trim (js '' {} '')) = None \<and>
   extract_payload (js '' {} '') = trim (js '' {} '')"
proof -
  have t1: "trim (js ''  hi'' @ fence_open @ js ''{}'' @ fence_close @ js ''x  '')
       = js ''hi'' @ fence_open @ js ''{}'' @ fence_close @ js ''x''"
    by (simp add: trim_def is_js_whitespace_def js_def fence_open_def fence_close_def)
  have t2: "\<not> sublist fence_open (js ''hi'' @ butlast fence_open)"
    by (simp add: js_def fence_open_def sublist_Cons_right)
  have t3: "\<not> sublist fence_close (js ''{}'' @ butlast fence_close)"
    by (simp add: js_def fence_close_def sublist_Cons_right)
  have t4: "regex_match (trim (js '' {} '')) = None"
    by (simp add: trim_def is_js_whitespace_def js_def fence_open_def match_here_def)
  have t5: "\<not> (\<exists>pre c post. trim (js '' {} '') = pre @ fence_open @ c @ fence_close @ post)"
    using t4 regex_match_complete by metis
  have ne: "js ''{}'' \<noteq> []" by (simp add: js_def)
  from extract_payload_first_block
         [of "js ''  hi'' @ fence_open @ js ''{}'' @ fence_close @ js ''x  ''"
             "js ''hi''" "js ''{}''" "js ''x''"] t1 t2 t3 ne
  have "extract_payload (js ''  hi'' @ fence_open @ js ''{}'' @ fence_close @ js ''x  '')
          = js ''{}''"
    by simp
  moreover from extract_payload_first_block [of "js '' {} ''"] t5
  have "extract_payload (js '' {} '') = trim (js '' {} '')"
    by blast
  ultimately show ?thesis using t1 t2 t3 t4 by blast
qed

subsection \<open>Citation sources\<close>

text \<open>The insertion-ordered map: its keys come in first-occurrence order, its values are the last ones set.\<close>

lemma keys_Map_set:
  "map fst (Map_set m k v) = (if k \<in> set (map fst m) then map fst m else map fst m @ [k])"
  by (induction m k v rule: Map_set.induct) auto

lemma map_of_Map_set: "map_of (Map_set m k v) = (map_of m)(k \<mapsto> v)"
  by (induction m k v rule: Map_set.induct) auto

lemma new_Map_snoc: "new_Map (es @ [(k, v)]) = Map_set (new_Map es) k v"
  by (simp add: new_Map_def)

lemma first_occurrences_snoc:
  "first_occurrences (xs @ [x]) =
     (if x \<in> set xs then first_occurrences xs else first_occurrences xs @ [x])"
  by (induction xs rule: first_occurrences.induct) auto

lemma set_first_occurrences: "set (first_occurrences xs) = set xs"
  by (induction xs rule: first_occurrences.induct) auto

lemma distinct_first_occurrences: "distinct (first_occurrences xs)"
  by (induction xs rule: first_occurrences.induct) (auto simp: set_first_occurrences)

lemma keys_new_Map: "map fst (new_Map es) = first_occurrences (map fst es)"
proof (induction es rule: rev_induct)
  case Nil
  show ?case by (simp add: new_Map_def)
next
  case (snoc e es)
  obtain k v where e: "e = (k, v)" by (cases e)
  have "set (map fst (new_Map es)) = set (map fst es)"
    by (simp only: snoc.IH set_first_occurrences)
  then show ?case
    unfolding e new_Map_snoc keys_Map_set snoc.IH
    by (simp add: first_occurrences_snoc)
qed

lemma map_of_new_Map: "map_of (new_Map es) = map_of (rev es)"
proof (induction es rule: rev_induct)
  case Nil
  show ?case by (simp add: new_Map_def)
next
  case (snoc e es)
  obtain k v where e: "e = (k, v)" by (cases e)
  show ?case unfolding e new_Map_snoc map_of_Map_set snoc.IH by simp
qed

lemma map_of_rev_keyed:
  "map_of (rev (map (\<lambda>i. (f i, i)) xs)) k =
     (if k \<in> f ` set xs then Some (last (filter (\<lambda>x. f x = k) xs)) else None)"
  by (induction xs rule: rev_induct) auto

lemma new_Map_entry:
  assumes "(k, v) \<in> set (new_Map (map (\<lambda>i. (f i, i)) xs))"
  shows "v = last (filter (\<lambda>x. f x = k) xs) \<and> k \<in> f ` set xs"
proof -
  have "distinct (map fst (new_Map (map (\<lambda>i. (f i, i)) xs)))"
    by (simp add: keys_new_Map distinct_first_occurrences)
  with assms have "map_of (new_Map (map (\<lambda>i. (f i, i)) xs)) k = Some v"
    by simp
  then show ?thesis
    by (simp add: map_of_new_Map map_of_rev_keyed split: if_splits)
qed

lemma last_filter_key:
  "k \<in> f ` set xs \<Longrightarrow> f (last (filter (\<lambda>x. f x = k) xs)) = k"
proof -
  assume "k \<in> f ` set xs"
  then have "filter (\<lambda>x. f x = k) xs \<noteq> []" by (auto simp: filter_empty_conv)
  then have "last (filter (\<lambda>x. f x = k) xs) \<in> set (filter (\<lambda>x. f x = k) xs)"
    by (rule last_in_set)
  then show ?thesis by simp
qed

lemma new_Map_entry_key:
  assumes "(k, v) \<in> set (new_Map (map (\<lambda>i. (f i, i)) xs))"
  shows "f v = k" and "v \<in> set xs"
proof -
  from new_Map_entry [OF assms]
  have v: "v = last (filter (\<lambda>x. f x = k) xs)" and k: "k \<in> f ` set xs" by blast+
  from k have "filter (\<lambda>x. f x = k) xs \<noteq> []" by (auto simp: filter_empty_conv)
  then have "last (filter (\<lambda>x. f x = k) xs) \<in> set (filter (\<lambda>x. f x = k) xs)"
    by (rule last_in_set)
  then have "v \<in> set (filter (\<lambda>x. f x = k) xs)" by (simp only: v [symmetric])
  then show "f v = k" and "v \<in> set xs" by simp_all
qed

lemma uri_uniqueSources:
  "map uri (uniqueSources chunks) = first_occurrences (map uri (webSources chunks))"
proof -
  let ?m = "new_Map (map (\<lambda>item. (uri item, item)) (webSources chunks))"
  have "uri (snd e) = fst e" if "e \<in> set ?m" for e
  proof -
    from that have "(fst e, snd e) \<in> set ?m" by simp
    then show ?thesis by (rule new_Map_entry_key)
  qed
  then have "map (\<lambda>e. uri (snd e)) ?m = map fst ?m" by (intro map_cong) simp_all
  then show ?thesis
    by (simp add: uniqueSources_def Map_values_def keys_new_Map comp_def)
qed

lemma uniqueSources_last:
  assumes "s \<in> set (uniqueSources chunks)"
  shows "s = last (filter (\<lambda>x. uri x = uri s) (webSources chunks))"
    and "s \<in> set (webSources chunks)"
proof -
  from assms obtain k where
    k: "(k, s) \<in> set (new_Map (map (\<lambda>item. (uri item, item)) (webSources chunks)))"
    by (auto simp: uniqueSources_def Map_values_def)
  from new_Map_entry_key [OF k] have u: "uri s = k" and "s \<in> set (webSources chunks)" .
  then show "s \<in> set (webSources chunks)" by simp
  from new_Map_entry [OF k] show "s = last (filter (\<lambda>x. uri x = uri s) (webSources chunks))"
    unfolding u by blast
qed


lemma webSources_Cons:
  "webSources (c # cs) =
     (case source_of_chunk c of None \<Rightarrow> webSources cs | Some s \<Rightarrow> s # webSources cs)"
  by (simp add: webSources_def split: option.splits)

lemma webSources_Nil: "webSources [] = []"
  by (simp add: webSources_def)

lemma uri_source_of_chunk:
  "map_option uri (source_of_chunk c) =
     (case web c of
        None \<Rightarrow> None
      | Some w \<Rightarrow> (case web_uri w of None \<Rightarrow> None | Some u \<Rightarrow> if u = [] then None else Some u))"
  by (simp add: source_of_chunk_def split: option.splits)

lemma uri_webSources:
  "map uri (webSources chunks) =
     concat (map (\<lambda>c. case web c of
                         None \<Rightarrow> []
                       | Some w \<Rightarrow> (case web_uri w of
                                      None \<Rightarrow> []
                                    | Some u \<Rightarrow> if u = [] then [] else [u])) chunks)"
proof (induction chunks)
  case Nil
  show ?case by (simp add: webSources_Nil)
next
  case (Cons c cs)
  show ?case
    using uri_source_of_chunk [of c]
    by (cases "source_of_chunk c")
       (auto simp: webSources_Cons Cons.IH split: option.splits if_splits)
qed

lemma filter_webSources:
  "filter (\<lambda>x. uri x = u) (webSources cs) =
     map (\<lambda>c. the (source_of_chunk c))
       (filter (\<lambda>c. map_option uri (source_of_chunk c) = Some u) cs)"
  by (induction cs) (auto simp: webSources_Nil webSources_Cons split: option.splits)

lemma uniqueSources_last_chunk:
  assumes "src \<in> set (uniqueSources chunks)"
  shows "source_of_chunk
           (last (filter (\<lambda>c. map_option uri (source_of_chunk c) = Some (uri src)) chunks))
         = Some src"
proof -
  let ?cs = "filter (\<lambda>c. map_option uri (source_of_chunk c) = Some (uri src)) chunks"
  from uniqueSources_last [OF assms]
  have l: "src = last (filter (\<lambda>x. uri x = uri src) (webSources chunks))"
    and m: "src \<in> set (webSources chunks)" .
  from m have "filter (\<lambda>x. uri x = uri src) (webSources chunks) \<noteq> []"
    by (auto simp: filter_empty_conv)
  then have ne: "?cs \<noteq> []" by (simp add: filter_webSources)
  then have "last ?cs \<in> set ?cs" by (rule last_in_set)
  then obtain s' where s': "source_of_chunk (last ?cs) = Some s'" by auto
  have "src = last (map (\<lambda>c. the (source_of_chunk c)) ?cs)"
    using l by (simp only: filter_webSources)
  also have "\<dots> = the (source_of_chunk (last ?cs))" using ne by (rule last_map)
  finally show ?thesis using s' by simp
qed

lemma sources_store_products: "sources (store_products JSON_parse t s) = sources s"
  by (simp add: store_products_def split: option.splits sum.splits exn.splits)

lemma sources_resume:
  "sources (fetchProducts_resume JSON_parse outcome s) =
     (case outcome of
        Rejected \<Rightarrow> sources s
      | Resolved r \<Rightarrow> (case groundingChunks r of None \<Rightarrow> sources s | Some chunks \<Rightarrow> uniqueSources chunks))"
  by (simp add: fetchProducts_resume_def sources_store_products Let_def split: api_outcome.splits option.splits)

lemma sources_fetchProducts:
  assumes "\<exists>c\<in>set searchQuery. \<not> is_js_whitespace c"
  shows "sources (fetchProducts JSON_parse searchQuery outcome s) =
     (case outcome of
        Rejected \<Rightarrow> []
      | Resolved r \<Rightarrow> (case groundingChunks r of None \<Rightarrow> [] | Some chunks \<Rightarrow> uniqueSources chunks))"
proof -
  from assms have "trim searchQuery \<noteq> []" by (simp add: trim_Nil_iff)
  then show ?thesis
    by (simp add: fetchProducts_def fetchProducts_begin_def sources_resume
          split: api_outcome.splits option.splits)
qed

lemma source_of_chunk_Some:
  "source_of_chunk c = Some src \<Longrightarrow>
   uri src \<noteq> [] \<and>
   (\<exists>w. web c = Some w \<and> web_uri w = Some (uri src) \<and>
        title src = (case web_title w of
                       None \<Rightarrow> uri src
                     | Some t \<Rightarrow> if t \<noteq> [] then t else uri src))"
  by (auto simp: source_of_chunk_def split: option.splits if_splits)

lemma webSources_mem:
  "src \<in> set (webSources chunks) \<Longrightarrow> \<exists>c\<in>set chunks. source_of_chunk c = Some src"
  by (auto simp: webSources_def)

text \<open>
  C2. When the model returns a list of grounding chunks, the source list stored by a
  search is \<open>uniqueSources\<close> of the chunks. Its uris are pairwise distinct; they are
  the non-empty web uris of the chunks in the order of their first occurrence (a chunk
  without \<open>web\<close>, without \<open>uri\<close> or with an empty uri contributes nothing); and each
  stored entry is the source made from the last chunk that carries its uri, so the
  title kept for a repeated uri is the last chunk's.
\<close>

theorem stored_sources_deduplicated:
  assumes "\<exists>c\<in>set searchQuery. \<not> is_js_whitespace c"
      and "groundingChunks r = Some chunks"
  shows "sources (fetchProducts JSON_parse searchQuery (Resolved r) s) = uniqueSources chunks \<and>
         distinct (map uri (uniqueSources chunks)) \<and>
         map uri (uniqueSources chunks) =
           first_occurrences
             (concat (map (\<lambda>c. case web c of
                                  None \<Rightarrow> []
                                | Some w \<Rightarrow> (case web_uri w of
                                               None \<Rightarrow> []
                                             | Some u \<Rightarrow> if u = [] then [] else [u])) chunks)) \<and>
         (\<forall>src\<in>set (uniqueSources chunks).
            source_of_chunk
              (last (filter (\<lambda>c. map_option uri (source_of_chunk c) = Some (uri src)) chunks))
            = Some src)"
proof (intro conjI ballI)
  show "sources (fetchProducts JSON_parse searchQuery (Resolved r) s) = uniqueSources chunks"
    using sources_fetchProducts [OF assms(1)] assms(2) by simp
  show "distinct (map uri (uniqueSources chunks))"
    by (simp only: uri_uniqueSources distinct_first_occurrences)
  show "map uri (uniqueSources chunks) =
           first_occurrences
             (concat (map (\<lambda>c. case web c of
                                  None \<Rightarrow> []
                                | Some w \<Rightarrow> (case web_uri w of
                                               None \<Rightarrow> []
                                             | Some u \<Rightarrow> if u = [] then [] else [u])) chunks))"
    by (simp only: uri_uniqueSources uri_webSources)
next
  fix src assume "src \<in> set (uniqueSources chunks)"
  then show "source_of_chunk
              (last (filter (\<lambda>c. map_option uri (source_of_chunk c) = Some (uri src)) chunks))
            = Some src"
    by (rule uniqueSources_last_chunk)
qed

theorem stored_sources_deduplicated_witness:
  "(\<exists>c\<in>set (js ''tv''). \<not> is_js_whitespace c) \<and>
   sources (fetchProducts (\<lambda>t. None) (js ''tv'')
      (Resolved \<lparr>groundingChunks = Some
          [\<lparr>web = Some \<lparr>web_uri = Some (js ''a''), web_title = None\<rparr>\<rparr>,
           \<lparr>web = None\<rparr>,
           \<lparr>web = Some \<lparr>web_uri = Some (js ''b''), web_title = Some (js ''B'')\<rparr>\<rparr>,
           \<lparr>web = Some \<lparr>web_uri = Some (js ''a''), web_title = Some (js ''A'')\<rparr>\<rparr>],
        response_text = None\<rparr>) initial_state)
     = [\<lparr>uri = js ''a'', title = js ''A''\<rparr>, \<lparr>uri = js ''b'', title = js ''B''\<rparr>] \<and>
   distinct (map uri (uniqueSources
          [\<lparr>web = Some \<lparr>web_uri = Some (js ''a''), web_title = None\<rparr>\<rparr>,
           \<lparr>web = None\<rparr>,
           \<lparr>web = Some \<lparr>web_uri = Some (js ''b''), web_title = Some (js ''B'')\<rparr>\<rparr>,
           \<lparr>web = Some \<lparr>web_uri = Some (js ''a''), web_title = Some (js ''A'')\<rparr>\<rparr>]))"
proof -
  let ?chunks = "[\<lparr>web = Some \<lparr>web_uri = Some (js ''a''), web_title = None\<rparr>\<rparr>,
           \<lparr>web = None\<rparr>,
           \<lparr>web = Some \<lparr>web_uri = Some (js ''b''), web_title = Some (js ''B'')\<rparr>\<rparr>,
           \<lparr>web = Some \<lparr>web_uri = Some (js ''a''), web_title = Some (js ''A'')\<rparr>\<rparr>]"
  have h1: "\<exists>c\<in>set (js ''tv''). \<not> is_js_whitespace c"
    by (simp add: js_def is_js_whitespace_def)
  have h2: "groundingChunks \<lparr>groundingChunks = Some ?chunks, response_text = None\<rparr> = Some ?chunks"
    by simp
  have v: "uniqueSources ?chunks
             = [\<lparr>uri = js ''a'', title = js ''A''\<rparr>, \<lparr>uri = js ''b'', title = js ''B''\<rparr>]"
    by (simp add: uniqueSources_def webSources_def source_of_chunk_def new_Map_def
          Map_values_def js_def)
  from stored_sources_deduplicated [OF h1 h2, of "\<lambda>t. None" initial_state] h1 v
  show ?thesis by simp
qed

text \<open>
  C7. Every source stored by a search has a non-empty uri, and it was made from a chunk
  of the response: the chunk's web uri is the source's uri, and the source's title is
  the chunk's web title, or the uri when the web title is missing (or empty).
\<close>

theorem stored_source_from_chunk:
  assumes "\<exists>c\<in>set searchQuery. \<not> is_js_whitespace c"
      and "src \<in> set (sources (fetchProducts JSON_parse searchQuery outcome s))"
  shows "uri src \<noteq> [] \<and>
         (\<exists>r chunks. outcome = Resolved r \<and> groundingChunks r = Some chunks \<and>
            (\<exists>c\<in>set chunks. \<exists>w. web c = Some w \<and> web_uri w = Some (uri src) \<and>
               title src = (case web_title w of
                              None \<Rightarrow> uri src
                            | Some t \<Rightarrow> if t \<noteq> [] then t else uri src)))"
proof -
  from assms(2) have "src \<in> set (case outcome of
        Rejected \<Rightarrow> []
      | Resolved r \<Rightarrow> (case groundingChunks r of None \<Rightarrow> [] | Some chunks \<Rightarrow> uniqueSources chunks))"
    by (simp only: sources_fetchProducts [OF assms(1)])
  then obtain r chunks where
    o: "outcome = Resolved r" "groundingChunks r = Some chunks"
    and m: "src \<in> set (uniqueSources chunks)"
    by (cases outcome; cases "groundingChunks (case outcome of Resolved r \<Rightarrow> r)") auto
  from uniqueSources_last(2) [OF m] webSources_mem obtain c where
    c: "c \<in> set chunks" "source_of_chunk c = Some src" by blast
  from source_of_chunk_Some [OF c(2)] o c(1) show ?thesis by blast
qed


theorem stored_source_from_chunk_witness:
  "(\<exists>c\<in>set (js ''tv''). \<not> is_js_whitespace c) \<and>
   \<lparr>uri = js ''a'', title = js ''a''\<rparr> \<in> set (sources (fetchProducts (\<lambda>t. None) (js ''tv'')
      (Resolved \<lparr>groundingChunks = Some
          [\<lparr>web = Some \<lparr>web_uri = Some (js ''a''), web_title = None\<rparr>\<rparr>,
           \<lparr>web = Some \<lparr>web_uri = Some [], web_title = Some (js ''B'')\<rparr>\<rparr>],
        response_text = None\<rparr>) initial_state)) \<and>
   uri \<lparr>uri = js ''a'', title = js ''a''\<rparr> \<noteq> []"
proof -
  let ?out = "Resolved \<lparr>groundingChunks = Some
          [\<lparr>web = Some \<lparr>web_uri = Some (js ''a''), web_title = None\<rparr>\<rparr>,
           \<lparr>web = Some \<lparr>web_uri = Some [], web_title = Some (js ''B'')\<rparr>\<rparr>],
        response_text = None\<rparr>"
  have h1: "\<exists>c\<in>set (js ''tv''). \<not> is_js_whitespace c"
    by (simp add: js_def is_js_whitespace_def)
  have "sources (fetchProducts (\<lambda>t. None) (js ''tv'') ?out initial_state)
          = uniqueSources [\<lparr>web = Some \<lparr>web_uri = Some (js ''a''), web_title = None\<rparr>\<rparr>,
              \<lparr>web = Some \<lparr>web_uri = Some [], web_title = Some (js ''B'')\<rparr>\<rparr>]"
    by (simp add: sources_fetchProducts [OF h1])
  also have "\<dots> = [\<lparr>uri = js ''a'', title = js ''a''\<rparr>]"
    by (simp add: uniqueSources_def webSources_def source_of_chunk_def new_Map_def
          Map_values_def js_def)
  finally have h2: "\<lparr>uri = js ''a'', title = js ''a''\<rparr>
              \<in> set (sources (fetchProducts (\<lambda>t. None) (js ''tv'') ?out initial_state))"
    by simp
  from stored_source_from_chunk [OF h1 h2] h1 h2 show ?thesis by blast
qed

subsection \<open>Failures of a search\<close>

lemma parse_error_message_nonempty: "parse_error_message \<noteq> []"
  by (simp add: parse_error_message_def js_def)

lemma request_error_message_nonempty: "request_error_message \<noteq> []"
  by (simp add: request_error_message_def)

lemma no_recognition_message_nonempty: "no_recognition_message \<noteq> []"
  by (simp add: no_recognition_message_def js_def)

lemma recognition_error_message_nonempty: "recognition_error_message e \<noteq> []"
  by (simp add: recognition_error_message_def js_def)

lemma isLoading_resume: "isLoading (fetchProducts_resume JSON_parse outcome s) = False"
  by (simp add: fetchProducts_resume_def)

lemma isListening_store_products:
  "isListening (store_products JSON_parse t s) = isListening s"
  by (simp add: store_products_def split: option.splits sum.splits exn.splits)

lemma isListening_resume:
  "isListening (fetchProducts_resume JSON_parse outcome s) = isListening s"
  by (simp add: fetchProducts_resume_def isListening_store_products Let_def
        split: api_outcome.splits option.splits)

lemma resume_Rejected:
  "error (fetchProducts_resume JSON_parse Rejected s) = Some request_error_message"
  by (simp add: fetchProducts_resume_def)

lemma resume_parse_failure:
  assumes "response_text r = Some t" and "JSON_parse (extract_payload t) = None"
  shows "error (fetchProducts_resume JSON_parse (Resolved r) s) = Some parse_error_message \<and>
         products (fetchProducts_resume JSON_parse (Resolved r) s) = JArray []"
  using assms by (simp add: fetchProducts_resume_def store_products_def Let_def)

lemma fetchProducts_nonblank:
  assumes "\<exists>c\<in>set searchQuery. \<not> is_js_whitespace c"
  shows "fetchProducts JSON_parse searchQuery outcome s =
           fetchProducts_resume JSON_parse outcome
             (s\<lparr>isLoading := True, error := None, products := JArray [], sources := [],
                searched := True\<rparr>)"
proof -
  from assms have "trim searchQuery \<noteq> []" by (simp add: trim_Nil_iff)
  then show ?thesis by (simp add: fetchProducts_def fetchProducts_begin_def)
qed

lemma loading_step:
  assumes "step JSON_parse supported e w = Some w'"
      and "isLoading (ui w) \<longrightarrow> 0 < in_flight w"
  shows "isLoading (ui w') \<longrightarrow> 0 < in_flight w'"
proof (cases e)
  case (Type t)
  then show ?thesis using assms by (auto split: if_splits)
next
  case Submit
  then show ?thesis using assms
    by (auto simp: handleTextSearch_def fetchProducts_begin_def sent_def
          search_button_disabled_def split: if_splits)
next
  case VoiceClick
  then show ?thesis using assms
    by (auto simp: handleVoiceSearch_def split: if_splits)
next
  case SpeechEnd
  then show ?thesis using assms by (auto simp: onspeechend_def split: if_splits)
next
  case (Result t)
  then show ?thesis using assms
    by (auto simp: onresult_def fetchProducts_begin_def sent_def split: if_splits)
next
  case (RecognitionError x)
  then show ?thesis using assms by (auto simp: onerror_def split: if_splits)
next
  case (Settle outcome)
  then show ?thesis using assms by (auto simp: isLoading_resume split: if_splits)
qed

lemma loading_run:
  "run JSON_parse supported es w = Some w' \<Longrightarrow>
   (isLoading (ui w) \<longrightarrow> 0 < in_flight w) \<Longrightarrow>
   (isLoading (ui w') \<longrightarrow> 0 < in_flight w')"
proof (induction es arbitrary: w)
  case Nil
  then show ?case by simp
next
  case (Cons e es)
  from Cons.prems(1) obtain w1 where
    s: "step JSON_parse supported e w = Some w1" and r: "run JSON_parse supported es w1 = Some w'"
    by (auto split: option.splits)
  from loading_step [OF s Cons.prems(2)] Cons.IH [OF r] show ?case by blast
qed

lemma loading_reachable:
  "run JSON_parse supported es initial_world = Some w \<Longrightarrow> in_flight w = 0 \<Longrightarrow>
   \<not> isLoading (ui w)"
  using loading_run [of JSON_parse supported es initial_world w]
  by (auto simp: initial_world_def initial_state_def)

lemma resume_parse_failure_view:
  assumes "response_text r = Some t" and "JSON_parse (extract_payload t) = None"
      and "\<not> isListening s"
  shows "renderStatus (fetchProducts_resume JSON_parse (Resolved r) s)
           = Inr (Error_paragraph parse_error_message)"
proof -
  let ?s' = "fetchProducts_resume JSON_parse (Resolved r) s"
  have "\<not> isLoading ?s'" by (simp add: isLoading_resume)
  moreover have "\<not> isListening ?s'" using assms(3) by (simp add: isListening_resume)
  moreover have "error ?s' = Some parse_error_message"
    using resume_parse_failure [of r t JSON_parse s] assms(1,2) by simp
  ultimately show ?thesis
    using parse_error_message_nonempty by (simp add: renderStatus_def)
qed

lemma isLoading_fetchProducts:
  "isLoading (fetchProducts JSON_parse q outcome s) \<longleftrightarrow> trim q = [] \<and> isLoading s"
  by (simp add: fetchProducts_def fetchProducts_begin_def isLoading_resume)

text \<open>
  C3. The failures of a search, stated on the continuation after the \<open>await\<close> from any
  state. A payload that \<open>JSON.parse\<close> rejects sets the parse error message and empties
  the products, and the status area then shows that error unless the page is
  listening; a rejected model call sets the request error message; both messages are
  non-empty strings. The two other ways into the \<open>catch\<close> blocks do the same: a payload
  that parses to \<open>null\<close> is handled as a parse failure, a response without text as a
  request failure. The loading flag is clear after every way the continuation ends.
  For whole calls: a call with a query that is not blank is lines 42 to 46 followed by
  the continuation, so it ends with the flag clear; a call with a blank query touches
  nothing, so it ends with the flag clear when it was clear at the call; and in every
  state the page reaches, the flag is clear whenever no model call is pending.
\<close>

theorem fetchProducts_error_handling:
  "\<not> isLoading (fetchProducts_resume JSON_parse outcome s) \<and>
   ((\<exists>c\<in>set searchQuery. \<not> is_js_whitespace c) \<or> \<not> isLoading s \<longrightarrow>
      \<not> isLoading (fetchProducts JSON_parse searchQuery outcome s)) \<and>
   (run JSON_parse supported es initial_world = Some w \<and> in_flight w = 0 \<longrightarrow>
      \<not> isLoading (ui w)) \<and>
   error (fetchProducts_resume JSON_parse Rejected s) = Some request_error_message \<and>
   request_error_message \<noteq> [] \<and>
   (response_text r = Some t \<and> JSON_parse (extract_payload t) = None \<longrightarrow>
      error (fetchProducts_resume JSON_parse (Resolved r) s) = Some parse_error_message \<and>
      parse_error_message \<noteq> [] \<and>
      products (fetchProducts_resume JSON_parse (Resolved r) s) = JArray [] \<and>
      (\<not> isListening s \<longrightarrow>
         renderStatus (fetchProducts_resume JSON_parse (Resolved r) s)
           = Inr (Error_paragraph parse_error_message))) \<and>
   (response_text r = Some t \<and> JSON_parse (extract_payload t) = Some JNull \<longrightarrow>
      error (fetchProducts_resume JSON_parse (Resolved r) s) = Some parse_error_message \<and>
      products (fetchProducts_resume JSON_parse (Resolved r) s) = JArray []) \<and>
   (response_text r = None \<longrightarrow>
      error (fetchProducts_resume JSON_parse (Resolved r) s) = Some request_error_message) \<and>
   ((\<exists>c\<in>set searchQuery. \<not> is_js_whitespace c) \<longrightarrow>
      fetchProducts JSON_parse searchQuery outcome s =
        fetchProducts_resume JSON_parse outcome
          (s\<lparr>isLoading := True, error := None, products := JArray [], sources := [],
             searched := True\<rparr>))"
proof (intro conjI impI)
  show "\<not> isLoading (fetchProducts_resume JSON_parse outcome s)"
    by (simp add: isLoading_resume)
  show "error (fetchProducts_resume JSON_parse Rejected s) = Some request_error_message"
    by (rule resume_Rejected)
  show "request_error_message \<noteq> []" by (rule request_error_message_nonempty)
next
  assume "(\<exists>c\<in>set searchQuery. \<not> is_js_whitespace c) \<or> \<not> isLoading s"
  then show "\<not> isLoading (fetchProducts JSON_parse searchQuery outcome s)"
    by (auto simp: isLoading_fetchProducts trim_Nil_iff)
next
  assume "run JSON_parse supported es initial_world = Some w \<and> in_flight w = 0"
  then show "\<not> isLoading (ui w)" using loading_reachable by blast
next
  assume a: "response_text r = Some t \<and> JSON_parse (extract_payload t) = None"
  then have t: "response_text r = Some t" and p: "JSON_parse (extract_payload t) = None"
    by simp_all
  from resume_parse_failure [of r t JSON_parse s] t p
  show "error (fetchProducts_resume JSON_parse (Resolved r) s) = Some parse_error_message"
    and "products (fetchProducts_resume JSON_parse (Resolved r) s) = JArray []"
    by simp_all
  show "parse_error_message \<noteq> []" by (rule parse_error_message_nonempty)
  assume "\<not> isListening s"
  with t p resume_parse_failure_view [of r t JSON_parse s]
  show "renderStatus (fetchProducts_resume JSON_parse (Resolved r) s)
           = Inr (Error_paragraph parse_error_message)"
    by simp
next
  assume "response_text r = Some t \<and> JSON_parse (extract_payload t) = Some JNull"
  then show "error (fetchProducts_resume JSON_parse (Resolved r) s) = Some parse_error_message"
    and "products (fetchProducts_resume JSON_parse (Resolved r) s) = JArray []"
    by (simp_all add: fetchProducts_resume_def store_products_def Let_def)
next
  assume "response_text r = None"
  then show "error (fetchProducts_resume JSON_parse (Resolved r) s) = Some request_error_message"
    by (simp add: fetchProducts_resume_def Let_def)
next
  assume "\<exists>c\<in>set searchQuery. \<not> is_js_whitespace c"
  then show "fetchProducts JSON_parse searchQuery outcome s =
        fetchProducts_resume JSON_parse outcome
          (s\<lparr>isLoading := True, error := None, products := JArray [], sources := [],
             searched := True\<rparr>)"
    by (rule fetchProducts_nonblank)
qed

theorem fetchProducts_error_handling_witness:
  "\<not> isLoading (fetchProducts_resume (\<lambda>t. None) Rejected
        (initial_state\<lparr>isLoading := True, searched := True, products := JArray [JObject []]\<rparr>)) \<and>
   error (fetchProducts_resume (\<lambda>t. None) Rejected
        (initial_state\<lparr>isLoading := True, searched := True, products := JArray [JObject []]\<rparr>))
     = Some request_error_message \<and>
   error (fetchProducts_resume (\<lambda>t. None)
        (Resolved \<lparr>groundingChunks = None, response_text = Some (js ''no json'')\<rparr>)
        (initial_state\<lparr>isLoading := True, searched := True, products := JArray [JObject []]\<rparr>))
     = Some parse_error_message \<and>
   products (fetchProducts_resume (\<lambda>t. None)
        (Resolved \<lparr>groundingChunks = None, response_text = Some (js ''no json'')\<rparr>)
        (initial_state\<lparr>isLoading := True, searched := True, products := JArray [JObject []]\<rparr>))
     = JArray [] \<and>
   renderStatus (fetchProducts_resume (\<lambda>t. None)
        (Resolved \<lparr>groundingChunks = None, response_text = Some (js ''no json'')\<rparr>)
        (initial_state\<lparr>isLoading := True, searched := True, products := JArray [JObject []]\<rparr>))
     = Inr (Error_paragraph parse_error_message) \<and>
   \<not> isLoading (fetchProducts (\<lambda>t. None) (js ''tv'') Rejected initial_state) \<and>
   \<not> isLoading (fetchProducts (\<lambda>t. None) (js '' '') Rejected initial_state) \<and>
   map_option (\<lambda>w. (in_flight w, isLoading (ui w)))
     (run (\<lambda>t. None) True [Type (js ''tv''), Submit, Settle Rejected] initial_world)
     = Some (0, False)"
proof -
  let ?s = "initial_state\<lparr>isLoading := True, searched := True, products := JArray [JObject []]\<rparr>"
  let ?r = "\<lparr>groundingChunks = None, response_text = Some (js ''no json'')\<rparr>"
  have l: "\<not> isListening ?s" by (simp add: initial_state_def)
  have t: "response_text ?r = Some (js ''no json'')" by simp
  note a = fetchProducts_error_handling
             [where JSON_parse = "\<lambda>t. None" and s = ?s and r = ?r and t = "js ''no json''"
                and outcome = Rejected]
  from a l t have 1:
    "\<not> isLoading (fetchProducts_resume (\<lambda>t. None) Rejected ?s) \<and>
     error (fetchProducts_resume (\<lambda>t. None) Rejected ?s) = Some request_error_message \<and>
     error (fetchProducts_resume (\<lambda>t. None) (Resolved ?r) ?s) = Some parse_error_message \<and>
     products (fetchProducts_resume (\<lambda>t. None) (Resolved ?r) ?s) = JArray [] \<and>
     renderStatus (fetchProducts_resume (\<lambda>t. None) (Resolved ?r) ?s)
       = Inr (Error_paragraph parse_error_message)"
    by simp
  have n: "\<exists>c\<in>set (js ''tv''). \<not> is_js_whitespace c"
    by (simp add: js_def is_js_whitespace_def)
  from fetchProducts_error_handling
         [where JSON_parse = "\<lambda>t. None" and s = initial_state and searchQuery = "js ''tv''"
            and outcome = Rejected] n
  have 2: "\<not> isLoading (fetchProducts (\<lambda>t. None) (js ''tv'') Rejected initial_state)"
    by blast
  have i: "\<not> isLoading initial_state" by (simp add: initial_state_def)
  from fetchProducts_error_handling
         [where JSON_parse = "\<lambda>t. None" and s = initial_state and searchQuery = "js '' ''"
            and outcome = Rejected] i
  have 3: "\<not> isLoading (fetchProducts (\<lambda>t. None) (js '' '') Rejected initial_state)"
    by blast
  have "\<exists>w. run (\<lambda>t. None) True [Type (js ''tv''), Submit, Settle Rejected] initial_world = Some w
           \<and> in_flight w = 0"
    by (simp add: initial_world_def initial_state_def input_disabled_def
          search_button_disabled_def handleTextSearch_def fetchProducts_begin_def trim_def
          is_js_whitespace_def js_def sent_def)
  then obtain w where
    w: "run (\<lambda>t. None) True [Type (js ''tv''), Submit, Settle Rejected] initial_world = Some w"
       "in_flight w = 0" by blast
  from fetchProducts_error_handling
         [where JSON_parse = "\<lambda>t. None" and supported = True
            and es = "[Type (js ''tv''), Submit, Settle Rejected]" and w = w] w
  have "\<not> isLoading (ui w)" by blast
  with w have 4: "map_option (\<lambda>w. (in_flight w, isLoading (ui w)))
     (run (\<lambda>t. None) True [Type (js ''tv''), Submit, Settle Rejected] initial_world)
     = Some (0, False)"
    by simp
  from 1 2 3 4 show ?thesis by blast
qed

subsection \<open>The stored products\<close>

lemma products_resume_parsed:
  assumes "response_text r = Some t" and "JSON_parse (extract_payload t) = Some v"
      and "member_products v = Inr p"
  shows "products (fetchProducts_resume JSON_parse (Resolved r) s)
           = (if truthy p then the p else JArray [])"
  using assms
  by (simp add: fetchProducts_resume_def store_products_def Let_def split: option.splits)

text \<open>
  C6, as stated, fails: nothing checks what \<open>JSON.parse\<close> returns. The response text
  \<open>{"products":[{}]}\<close>, written here in code units, parses to an object whose
  \<open>products\<close> member is an array holding one empty object; that array is stored, and
  its element has none of the five fields.
\<close>

theorem unchecked_product_stored:
  "products (fetchProducts
      (\<lambda>t. if t = [0x7B, 0x22] @ js ''products'' @ [0x22, 0x3A, 0x5B, 0x7B, 0x7D, 0x5D, 0x7D]
            then Some (JObject [(js ''products'', JArray [JObject []])]) else None)
      (js ''tv'')
      (Resolved \<lparr>groundingChunks = None,
                 response_text = Some ([0x7B, 0x22] @ js ''products'' @
                                       [0x22, 0x3A, 0x5B, 0x7B, 0x7D, 0x5D, 0x7D])\<rparr>)
      initial_state)
     = JArray [JObject []] \<and>
   \<not> is_Product (JObject [])"
  by (simp add: fetchProducts_def fetchProducts_begin_def fetchProducts_resume_def
        store_products_def extract_payload_def trim_def is_js_whitespace_def js_def
        fence_open_def match_here_def is_string_field_def)

text \<open>
  C6, amended. When the payload parses (to a value other than \<open>null\<close>), the products
  stored by the search are the \<open>products\<close> member of the parsed value, unchanged and
  unchecked, when that member is truthy, and the empty list otherwise. So the stored
  value is an array of records with the five string fields exactly when the member is
  falsy or absent, or is itself such an array.
\<close>

theorem products_stored_unchecked:
  assumes "\<exists>c\<in>set searchQuery. \<not> is_js_whitespace c"
      and "response_text r = Some t"
      and "JSON_parse (extract_payload t) = Some v"
      and "member_products v = Inr p"
  shows "products (fetchProducts JSON_parse searchQuery (Resolved r) s)
           = (if truthy p then the p else JArray []) \<and>
         (is_Product_array (products (fetchProducts JSON_parse searchQuery (Resolved r) s))
            \<longleftrightarrow> \<not> truthy p \<or> is_Product_array (the p))"
  using products_resume_parsed [of r t JSON_parse v p] assms(2-4)
  by (simp add: fetchProducts_nonblank [OF assms(1)])

theorem products_stored_unchecked_witness:
  "(\<exists>c\<in>set (js ''tv''). \<not> is_js_whitespace c) \<and>
   products (fetchProducts
      (\<lambda>t. Some (JObject [(js ''products'',
          JArray [JObject [(js ''name'', JString (js ''TV'')),
                           (js ''description'', JString (js ''4K'')),
                           (js ''price'', JString (js ''100'')),
                           (js ''imageUrl'', JString (js ''i'')),
                           (js ''productUrl'', JString (js ''p''))]])]))
      (js ''tv'')
      (Resolved \<lparr>groundingChunks = None, response_text = Some (js ''x'')\<rparr>)
      initial_state)
     = JArray [JObject [(js ''name'', JString (js ''TV'')),
                        (js ''description'', JString (js ''4K'')),
                        (js ''price'', JString (js ''100'')),
                        (js ''imageUrl'', JString (js ''i'')),
                        (js ''productUrl'', JString (js ''p''))]] \<and>
   is_Product_array (JArray [JObject [(js ''name'', JString (js ''TV'')),
                        (js ''description'', JString (js ''4K'')),
                        (js ''price'', JString (js ''100'')),
                        (js ''imageUrl'', JString (js ''i'')),
                        (js ''productUrl'', JString (js ''p''))]])"
proof -
  let ?P = "JArray [JObject [(js ''name'', JString (js ''TV'')),
                        (js ''description'', JString (js ''4K'')),
                        (js ''price'', JString (js ''100'')),
                        (js ''imageUrl'', JString (js ''i'')),
                        (js ''productUrl'', JString (js ''p''))]]"
  let ?V = "JObject [(js ''products'', ?P)]"
  have h1: "\<exists>c\<in>set (js ''tv''). \<not> is_js_whitespace c"
    by (simp add: js_def is_js_whitespace_def)
  have h2: "response_text \<lparr>groundingChunks = None, response_text = Some (js ''x'')\<rparr>
              = Some (js ''x'')" by simp
  have h3: "(\<lambda>t. Some ?V) (extract_payload (js ''x'')) = Some ?V" by simp
  have h4: "member_products ?V = Inr (Some ?P)" by simp
  have p: "is_Product_array ?P"
    by (simp add: is_string_field_def js_def)
  from products_stored_unchecked [OF h1 h2 h3 h4, of initial_state] h1 p
  show ?thesis by simp
qed

subsection \<open>The status area\<close>

text \<open>
  In every state the page can reach, the error is \<open>null\<close> or a non-empty message and
  the stored products are not \<open>null\<close>.
\<close>

lemma store_products_wf:
  assumes "error s \<noteq> Some []" 
  shows "error (store_products JSON_parse t s) \<noteq> Some [] \<and>
         products (store_products JSON_parse t s) \<noteq> JNull"
proof (cases "JSON_parse t")
  case None
  then show ?thesis by (simp add: store_products_def parse_error_message_nonempty)
next
  case (Some v)
  show ?thesis
  proof (cases "member_products v")
    case (Inl e)
    then show ?thesis using Some
      by (cases e) (simp add: store_products_def parse_error_message_nonempty)
  next
    case (Inr p)
    have "truthy p \<Longrightarrow> the p \<noteq> JNull" by (cases p) auto
    then show ?thesis using Some Inr assms by (simp add: store_products_def)
  qed
qed

lemma resume_wf:
  assumes "error s \<noteq> Some []" and "products s \<noteq> JNull"
  shows "error (fetchProducts_resume JSON_parse outcome s) \<noteq> Some [] \<and>
         products (fetchProducts_resume JSON_parse outcome s) \<noteq> JNull"
proof (cases outcome)
  case Rejected
  then show ?thesis using assms
    by (simp add: fetchProducts_resume_def request_error_message_nonempty)
next
  case (Resolved r)
  let ?s1 = "case groundingChunks r of None \<Rightarrow> s | Some chunks \<Rightarrow> s\<lparr>sources := uniqueSources chunks\<rparr>"
  have s1: "error ?s1 \<noteq> Some []" "products ?s1 \<noteq> JNull"
    using assms by (simp_all split: option.splits)
  show ?thesis
  proof (cases "response_text r")
    case None
    then show ?thesis using Resolved s1
      by (simp add: fetchProducts_resume_def Let_def request_error_message_nonempty)
  next
    case (Some t)
    then show ?thesis using Resolved store_products_wf [OF s1(1), of JSON_parse "extract_payload t"]
      by (simp add: fetchProducts_resume_def Let_def)
  qed
qed

lemma begin_wf:
  assumes "error s \<noteq> Some []" and "products s \<noteq> JNull"
  shows "error (fst (fetchProducts_begin q s)) \<noteq> Some [] \<and>
         products (fst (fetchProducts_begin q s)) \<noteq> JNull"
  using assms by (simp add: fetchProducts_begin_def)

lemma step_wf:
  assumes "step JSON_parse supported e w = Some w'"
      and "error (ui w) \<noteq> Some []" and "products (ui w) \<noteq> JNull"
  shows "error (ui w') \<noteq> Some [] \<and> products (ui w') \<noteq> JNull"
proof (cases e)
  case (Type t)
  then show ?thesis using assms by (auto split: if_splits)
next
  case Submit
  then show ?thesis
    using assms begin_wf [OF assms(2,3), of "query (ui w)"]
    by (auto simp: handleTextSearch_def split: if_splits prod.splits)
next
  case VoiceClick
  then show ?thesis using assms
    by (auto simp: handleVoiceSearch_def no_recognition_message_nonempty split: if_splits)
next
  case SpeechEnd
  then show ?thesis using assms by (auto simp: onspeechend_def split: if_splits)
next
  case (Result t)
  have "error ((ui w)\<lparr>query := t\<rparr>) \<noteq> Some []" "products ((ui w)\<lparr>query := t\<rparr>) \<noteq> JNull"
    using assms by simp_all
  from begin_wf [OF this, of t] Result assms(1) show ?thesis
    by (auto simp: onresult_def split: if_splits prod.splits)
next
  case (RecognitionError x)
  then show ?thesis using assms
    by (auto simp: onerror_def recognition_error_message_nonempty split: if_splits)
next
  case (Settle outcome)
  then show ?thesis using assms resume_wf [OF assms(2,3), of JSON_parse outcome]
    by (auto split: if_splits)
qed

lemma run_wf:
  "run JSON_parse supported es w = Some w' \<Longrightarrow>
   error (ui w) \<noteq> Some [] \<Longrightarrow> products (ui w) \<noteq> JNull \<Longrightarrow>
   error (ui w') \<noteq> Some [] \<and> products (ui w') \<noteq> JNull"
proof (induction es arbitrary: w)
  case Nil
  then show ?case by simp
next
  case (Cons e es)
  from Cons.prems(1) obtain w1 where
    s: "step JSON_parse supported e w = Some w1" and r: "run JSON_parse supported es w1 = Some w'"
    by (auto split: option.splits)
  from step_wf [OF s Cons.prems(2,3)] Cons.IH [OF r] show ?case by blast
qed

lemma reachable_wf:
  "run JSON_parse supported es initial_world = Some w \<Longrightarrow>
   error (ui w) \<noteq> Some [] \<and> products (ui w) \<noteq> JNull"
  by (erule run_wf) (simp_all add: initial_world_def initial_state_def)










subsection \<open>Requests in flight\<close>

text \<open>
  While the loading or the listening flag is set the input and the search button are
  disabled, so no text search starts, and \<open>handleVoiceSearch\<close> starts no recognition.
\<close>

lemma controls_disabled:
  "isLoading s \<or> isListening s \<Longrightarrow> input_disabled s \<and> search_button_disabled s"
  by (auto simp: input_disabled_def search_button_disabled_def)

lemma no_text_search_while_busy:
  "isLoading (ui w) \<or> isListening (ui w) \<Longrightarrow>
   step JSON_parse supported (Type t) w = None \<and> step JSON_parse supported Submit w = None"
  by (auto simp: input_disabled_def search_button_disabled_def)

lemma handleVoiceSearch_busy:
  "isListening s \<or> isLoading s \<Longrightarrow> snd (handleVoiceSearch supported s) = False"
  by (simp add: handleVoiceSearch_def)

text \<open>
  C5. The code does not keep the claim's bound of one request in flight. The handler
  of \<open>speechend\<close> clears the listening flag before the session's result has arrived,
  which enables the search button again; \<open>onresult\<close> calls \<open>fetchProducts\<close> without
  looking at the loading flag. With a query typed beforehand: the user starts a voice
  search, stops speaking, submits the typed query, and then the recognition result
  arrives. Two model calls are pending at that point.
\<close>

theorem second_request_while_loading:
  "map_option (\<lambda>w. (in_flight w, isLoading (ui w), isListening (ui w)))
     (run (\<lambda>t. None) True
        [Type (js ''tv''), VoiceClick, SpeechEnd, Submit, Result (js ''radio'')]
        initial_world)
   = Some (2, True, False)"
  by (simp add: initial_world_def initial_state_def input_disabled_def
        search_button_disabled_def voice_button_disabled_def handleVoiceSearch_def
        handleTextSearch_def onspeechend_def onresult_def fetchProducts_begin_def trim_def
        is_js_whitespace_def js_def sent_def)


end
